theory Spec2Isabelle
  imports Main "HOL-Library.Word"
begin

unbundle bit_operations_syntax

section \<open>Data model\<close>

text \<open>
  The server of \<^verbatim>\<open>src/main.go\<close> works on bytes. A byte is an 8-bit word. Go's \<^verbatim>\<open>int\<close> is
  taken to be 64 bits wide (as on every 64-bit platform); every \<^verbatim>\<open>int\<close> the frame codec
  computes from wire bytes is below \<open>2 ^ 32\<close>, so lengths are natural numbers and no
  wrap-around can occur in them. The conversion \<^verbatim>\<open>byte(n)\<close> of an \<^verbatim>\<open>int\<close> keeps the low
  eight bits, which is \<open>of_nat\<close> into \<open>8 word\<close>.
\<close>

type_synonym byte = "8 word"

text \<open>
  The errors that can reach the caller of \<^verbatim>\<open>readFrame\<close> and \<^verbatim>\<open>writeFrame\<close>:
  the two errors of \<^verbatim>\<open>io.ReadFull\<close> on a stream that ends, the error made by
  \<^verbatim>\<open>fmt.Errorf("fragmented frames not supported yet")\<close>, and a failed \<^verbatim>\<open>Write\<close>.
\<close>

datatype error = EOF | ErrUnexpectedEOF | ErrFragmented | ErrWrite

text \<open>
  The read side of the connection is the list of bytes the peer sends before it stops
  sending. \<^verbatim>\<open>io.ReadFull(r, buf)\<close> with \<open>n = len(buf)\<close> fills the buffer when \<open>n\<close>
  bytes are left, and otherwise consumes what is left and fails: with \<^verbatim>\<open>io.EOF\<close> when
  nothing was read, with \<^verbatim>\<open>io.ErrUnexpectedEOF\<close> when some bytes were. The buffer was
  made by \<^verbatim>\<open>make\<close>, so the bytes not read are zero. A buffer of length 0 is always
  filled. The result is the error, the buffer and the rest of the stream.
\<close>

definition ReadFull :: "nat \<Rightarrow> byte list \<Rightarrow> error option \<times> byte list \<times> byte list" where
  "ReadFull n r =
     (if n \<le> length r then (None, take n r, drop n r)
      else (Some (if r = [] then EOF else ErrUnexpectedEOF),
            r @ replicate (n - length r) 0, []))"

section \<open>Decoding a frame: \<^verbatim>\<open>readFrame\<close>\<close>

text \<open>The named results of \<^verbatim>\<open>readFrame\<close>: \<^verbatim>\<open>(opcode byte, payload []byte, err error)\<close>.\<close>

record frame_result =
  opcode :: byte
  payload :: "byte list"
  err :: "error option"

definition finBit :: byte where
  "finBit = push_bit 7 1"

definition maskedBit :: byte where
  "maskedBit = push_bit 7 1"

text \<open>
  The loop \<^verbatim>\<open>for i := range payloadLen { payload[i] ^= maskingKey[i%4] }\<close>, with the
  loop counter \<open>i\<close> and the bound \<open>n\<close>.
\<close>

function maskLoop :: "nat \<Rightarrow> nat \<Rightarrow> byte list \<Rightarrow> byte list \<Rightarrow> byte list" where
  "maskLoop i n maskingKey p =
     (if i < n then maskLoop (Suc i) n maskingKey (p[i := p ! i XOR maskingKey ! (i mod 4)])
      else p)"
  by pat_completeness auto
termination
  by (relation "measure (\<lambda>(i, n, k, p). n - i)") auto

declare maskLoop.simps [simp del]

text \<open>
  \<^verbatim>\<open>readFrame\<close>, statement by statement. Every \<^verbatim>\<open>return\<close> of the source is a branch
  that gives the named results as they stand at that point, and the rest of the stream.
\<close>

definition readFrame :: "byte list \<Rightarrow> frame_result \<times> byte list" where
  "readFrame r0 =
     (case ReadFull 2 r0 of
        (Some e, header, r1) \<Rightarrow> (\<lparr>opcode = 0, payload = [], err = Some e\<rparr>, r1)
      | (None, header, r1) \<Rightarrow>
          let fin = (header ! 0 AND finBit \<noteq> 0);
              opc = header ! 0 AND 0x0F;
              masked = (header ! 1 AND maskedBit \<noteq> 0);
              payloadLen = unat (header ! 1 AND 0x7F)
          in
          if opc = 0x8 then (\<lparr>opcode = opc, payload = [], err = None\<rparr>, r1)
          else
            (case
               (if payloadLen = 126 then
                  (case ReadFull 2 r1 of
                     (Some e, ext, r2) \<Rightarrow> (Some e, payloadLen, r2)
                   | (None, ext, r2) \<Rightarrow>
                       (None, push_bit 8 (unat (ext ! 0)) OR unat (ext ! 1), r2))
                else if payloadLen = 127 then
                  (case ReadFull 8 r1 of
                     (Some e, ext, r2) \<Rightarrow> (Some e, payloadLen, r2)
                   | (None, ext, r2) \<Rightarrow>
                       (None,
                        push_bit 24 (unat (ext ! 4)) OR push_bit 16 (unat (ext ! 5))
                          OR push_bit 8 (unat (ext ! 6)) OR unat (ext ! 7), r2))
                else (None, payloadLen, r1))
             of
               (Some e, payloadLen, r2) \<Rightarrow> (\<lparr>opcode = opc, payload = [], err = Some e\<rparr>, r2)
             | (None, payloadLen, r2) \<Rightarrow>
                 (case (if masked then ReadFull 4 r2 else (None, [], r2)) of
                    (Some e, maskingKey, r3) \<Rightarrow>
                      (\<lparr>opcode = opc, payload = [], err = Some e\<rparr>, r3)
                  | (None, maskingKey, r3) \<Rightarrow>
                      (case ReadFull payloadLen r3 of
                         (Some e, p, r4) \<Rightarrow> (\<lparr>opcode = opc, payload = p, err = Some e\<rparr>, r4)
                       | (None, p, r4) \<Rightarrow>
                           let p' = (if masked then maskLoop 0 payloadLen maskingKey p else p)
                           in (\<lparr>opcode = opc, payload = p',
                                err = (if \<not> fin then Some ErrFragmented else None)\<rparr>, r4)))))"

subsection \<open>A complete frame on the wire\<close>

text \<open>
  The layout of a frame as \<^verbatim>\<open>readFrame\<close> reads it, for the statements about streams that
  hold a whole frame: after the two header bytes come \<open>extLen\<close> bytes of extended length,
  four bytes of masking key when the mask bit of the second header byte is set, and as
  many bytes of payload as \<open>payloadLenOf\<close> gives, the number \<^verbatim>\<open>readFrame\<close> computes in its
  variable \<^verbatim>\<open>payloadLen\<close>.
\<close>

definition extLen :: "byte \<Rightarrow> nat" where
  "extLen b1 =
     (if unat (b1 AND 0x7F) = 126 then 2 else if unat (b1 AND 0x7F) = 127 then 8 else 0)"

definition payloadLenOf :: "byte \<Rightarrow> byte list \<Rightarrow> nat" where
  "payloadLenOf b1 ext =
     (if unat (b1 AND 0x7F) = 126 then push_bit 8 (unat (ext ! 0)) OR unat (ext ! 1)
      else if unat (b1 AND 0x7F) = 127 then
        push_bit 24 (unat (ext ! 4)) OR push_bit 16 (unat (ext ! 5))
          OR push_bit 8 (unat (ext ! 6)) OR unat (ext ! 7)
      else unat (b1 AND 0x7F))"

definition completeFrame :: "byte \<Rightarrow> byte list \<Rightarrow> byte list \<Rightarrow> byte list \<Rightarrow> bool" where
  "completeFrame b1 ext maskingKey body \<longleftrightarrow>
     length ext = extLen b1 \<and>
     length maskingKey = (if b1 AND maskedBit \<noteq> 0 then 4 else 0) \<and>
     length body = payloadLenOf b1 ext"

section \<open>Encoding a frame: \<^verbatim>\<open>writeFrame\<close> and \<^verbatim>\<open>writeCloseFrame\<close>\<close>

text \<open>
  The connection: the bytes the peer has sent and the server has not read yet, the bytes
  the server has written, how many more bytes the peer takes before a \<^verbatim>\<open>Write\<close> fails
  (\<open>None\<close>: every write succeeds), and whether \<^verbatim>\<open>conn.Close()\<close> has run.
\<close>

record conn =
  unread :: "byte list"
  written :: "byte list"
  room :: "nat option"
  closed :: bool

text \<open>
  \<^verbatim>\<open>w.Write(buf)\<close>: all of the buffer is written, or the write fails after the bytes the
  peer still took.
\<close>

definition Write :: "conn \<Rightarrow> byte list \<Rightarrow> error option \<times> conn" where
  "Write w buf =
     (case room w of
        None \<Rightarrow> (None, w\<lparr>written := written w @ buf\<rparr>)
      | Some k \<Rightarrow>
          if length buf \<le> k
          then (None, w\<lparr>written := written w @ buf, room := Some (k - length buf)\<rparr>)
          else (Some ErrWrite, w\<lparr>written := written w @ take k buf, room := Some 0\<rparr>))"

text \<open>The header that \<^verbatim>\<open>writeFrame\<close> builds before its first \<^verbatim>\<open>Write\<close>.\<close>

definition frameHeader :: "byte \<Rightarrow> byte list \<Rightarrow> byte list" where
  "frameHeader opc p =
     (let header = [0x80 OR opc];
          payloadLen = length p
      in if payloadLen < 126 then header @ [of_nat payloadLen]
         else if payloadLen \<le> 0xFFFF then
           header @ [126, of_nat (drop_bit 8 payloadLen), of_nat payloadLen]
         else
           header @ [127, 0, 0, 0, 0,
                     of_nat (drop_bit 24 payloadLen), of_nat (drop_bit 16 payloadLen),
                     of_nat (drop_bit 8 payloadLen), of_nat payloadLen])"

definition writeFrame :: "conn \<Rightarrow> byte \<Rightarrow> byte list \<Rightarrow> error option \<times> conn" where
  "writeFrame w opc p =
     (case Write w (frameHeader opc p) of
        (Some e, w1) \<Rightarrow> (Some e, w1)
      | (None, w1) \<Rightarrow>
          (case Write w1 p of
             (Some e, w2) \<Rightarrow> (Some e, w2)
           | (None, w2) \<Rightarrow> (None, w2)))"

text \<open>
  \<^verbatim>\<open>writeCloseFrame\<close>: the status code is an \<^verbatim>\<open>int\<close>, the reason a string, whose bytes
  \<^verbatim>\<open>copy\<close> puts after the two bytes of the code.
\<close>

definition writeCloseFrame :: "conn \<Rightarrow> nat \<Rightarrow> string \<Rightarrow> error option \<times> conn" where
  "writeCloseFrame w code reason =
     (let p0 = replicate (2 + length reason) (0 :: byte);
          p1 = p0[0 := of_nat (drop_bit 8 code)];
          p2 = p1[1 := of_nat code];
          p3 = take 2 p2 @ map of_char reason
      in writeFrame w 0x8 p3)"

subsection \<open>Writes that succeed\<close>

text \<open>
  For the statements about the loop: \<open>canWrite w n\<close> says that the peer still takes \<open>n\<close>
  bytes, and \<open>afterWrite w bs\<close> is the connection after the bytes \<open>bs\<close> have been written
  to it.
\<close>

definition canWrite :: "conn \<Rightarrow> nat \<Rightarrow> bool" where
  "canWrite w n = (case room w of None \<Rightarrow> True | Some k \<Rightarrow> n \<le> k)"

definition afterWrite :: "conn \<Rightarrow> byte list \<Rightarrow> conn" where
  "afterWrite w bs =
     w\<lparr>written := written w @ bs,
       room := (case room w of None \<Rightarrow> None | Some k \<Rightarrow> Some (k - length bs))\<rparr>"

section \<open>The connection loop of \<^verbatim>\<open>websocketHandler\<close>\<close>

text \<open>
  The \<^verbatim>\<open>for\<close> loop of the handler, on the connection it took over. Reading goes
  through the buffered reader and writing goes to the connection; both are fields of
  \<open>conn\<close>. The calls of \<^verbatim>\<open>fmt.Println\<close> and \<^verbatim>\<open>fmt.Printf\<close> write to the console only
  and are left out. The result is the connection when the loop returns. The peer's bytes
  are a finite list, so the loop ends: a frame that decodes without error takes at least
  its two header bytes.
\<close>

function serveLoop :: "conn \<Rightarrow> conn" where
  "serveLoop c =
     (case readFrame (unread c) of
        (res, r') \<Rightarrow>
          let c1 = c\<lparr>unread := r'\<rparr> in
          (case err res of
             Some e \<Rightarrow> c1
           | None \<Rightarrow>
               if opcode res = 0x8 then
                 (case writeCloseFrame c1 0x8 ''bye'' of
                    (Some e, c2) \<Rightarrow> c2
                  | (None, c2) \<Rightarrow> c2)
               else
                 (case writeFrame c1 (opcode res) (payload res) of
                    (Some e, c2) \<Rightarrow> c2
                  | (None, c2) \<Rightarrow> serveLoop c2)))"
  by pat_completeness auto
termination
proof (relation "measure (\<lambda>c. length (unread c))")
  show "wf (measure (\<lambda>c. length (unread c)))"
    by simp
next
  fix c :: conn and res r' c1 eo c2
  assume rd: "(res, r') = readFrame (unread c)" and c1: "c1 = c\<lparr>unread := r'\<rparr>"
    and ok: "err res = None" and wr: "(eo, c2) = writeFrame c1 (opcode res) (payload res)"
  have shorter: "length r' < length (unread c)"
  proof -
    have two: "\<And>b r. ReadFull 2 (unread c) = (None, b, r) \<Longrightarrow> length r < length (unread c)"
      by (auto simp: ReadFull_def split: if_splits)
    have le: "\<And>n r e b r2. ReadFull n r = (e, b, r2) \<Longrightarrow> length r2 \<le> length r"
      by (auto simp: ReadFull_def split: if_splits)
    from rd ok have "readFrame (unread c) = (res, r')" "err res = None"
      by simp_all
    then show ?thesis
      apply (simp add: readFrame_def Let_def split: prod.splits option.splits if_splits)
      apply (auto dest!: le two)
      done
  qed
  have "unread c2 = unread c1"
    using wr [symmetric]
    by (auto simp: writeFrame_def Write_def split: option.splits if_splits prod.splits)
  with shorter c1 show "(c2, c) \<in> measure (\<lambda>c. length (unread c))"
    by simp
qed

declare serveLoop.simps [simp del]

section \<open>The handshake of \<^verbatim>\<open>websocketHandler\<close>\<close>

text \<open>
  The request headers are an \<^verbatim>\<open>http.Header\<close>, a map from a header's name to its values.
  \<^verbatim>\<open>Header.Get\<close> gives the first value of a name and the empty string when there is
  none. Go compares header names in their canonical form; here a name is the string the
  handler asks for.
\<close>

type_synonym header = "string \<rightharpoonup> string list"

definition Get :: "header \<Rightarrow> string \<Rightarrow> string" where
  "Get h key = (case h key of None \<Rightarrow> [] | Some [] \<Rightarrow> [] | Some (v # _) \<Rightarrow> v)"

definition StatusBadRequest :: nat where
  "StatusBadRequest = 400"

definition StatusSwitchingProtocols :: nat where
  "StatusSwitchingProtocols = 101"

definition magicGUID :: string where
  "magicGUID = ''258EAFA5-E914-47DA-95CA-C5AB0DC85B11''"

subsection \<open>SHA-1 and base64 of Go's standard library\<close>

text \<open>
  \<^verbatim>\<open>crypto/sha1\<close> and \<^verbatim>\<open>encoding/base64\<close> are not code of the repository. They are
  written here as their standards define them: SHA-1 from FIPS 180-4 (padding, the
  message schedule, eighty rounds on five 32-bit words, big-endian output) and the
  standard padded base64 alphabet of RFC 4648. Bytes and 32-bit words are natural
  numbers in this part, with the wrap-around of \<^verbatim>\<open>uint32\<close> written out as \<open>mod 2 ^ 32\<close>.
\<close>

definition add32 :: "nat \<Rightarrow> nat \<Rightarrow> nat" where
  "add32 x y = (x + y) mod 2 ^ 32"

definition not32 :: "nat \<Rightarrow> nat" where
  "not32 x = x XOR 0xFFFFFFFF"

definition RotateLeft32 :: "nat \<Rightarrow> nat \<Rightarrow> nat" where
  "RotateLeft32 x k = (push_bit k x OR drop_bit (32 - k) x) mod 2 ^ 32"

text \<open>The sixteen big-endian words of a 64-byte block.\<close>

fun words :: "nat list \<Rightarrow> nat list" where
  "words (a # b # c # d # p) =
     (push_bit 24 a OR push_bit 16 b OR push_bit 8 c OR d) # words p"
| "words _ = []"

fun zeros :: "nat \<Rightarrow> nat list" where
  "zeros n = (if n = 0 then [] else 0 # zeros (n - 1))"

declare zeros.simps [simp del]

definition PutUint64 :: "nat \<Rightarrow> nat list" where
  "PutUint64 v = map (\<lambda>i. drop_bit i v mod 256) [56, 48, 40, 32, 24, 16, 8, 0]"

definition PutUint32 :: "nat \<Rightarrow> nat list" where
  "PutUint32 v = map (\<lambda>i. drop_bit i v mod 256) [24, 16, 8, 0]"

text \<open>
  Padding: the byte \<open>0x80\<close>, zeros up to 56 modulo 64, and the length of the message in
  bits as a big-endian 64-bit number.
\<close>

definition sha1_pad :: "nat list \<Rightarrow> nat list" where
  "sha1_pad m =
     (let l = length m
      in m @ [0x80] @ zeros (if l mod 64 < 56 then 55 - l mod 64 else 119 - l mod 64)
           @ PutUint64 ((8 * l) mod 2 ^ 64))"

text \<open>
  The message schedule, newest word first: \<open>n\<close> more words are added to \<open>ws\<close>, each the
  rotated exclusive or of the words 3, 8, 14 and 16 places before it.
\<close>

fun schedule :: "nat \<Rightarrow> nat list \<Rightarrow> nat list" where
  "schedule n ws =
     (if n = 0 then ws
      else schedule (n - 1)
             (RotateLeft32 (ws ! 2 XOR ws ! 7 XOR ws ! 13 XOR ws ! 15) 1 # ws))"

declare schedule.simps [simp del]

definition sha1_f :: "nat \<Rightarrow> nat \<Rightarrow> nat \<Rightarrow> nat \<Rightarrow> nat" where
  "sha1_f i b c d =
     (if i < 20 then (b AND c) OR (not32 b AND d)
      else if i < 40 then b XOR c XOR d
      else if i < 60 then ((b OR c) AND d) OR (b AND c)
      else b XOR c XOR d)"

definition sha1_k :: "nat \<Rightarrow> nat" where
  "sha1_k i =
     (if i < 20 then 0x5A827999 else if i < 40 then 0x6ED9EBA1
      else if i < 60 then 0x8F1BBCDC else 0xCA62C1D6)"

type_synonym digest = "nat \<times> nat \<times> nat \<times> nat \<times> nat"

fun rounds :: "nat \<Rightarrow> nat list \<Rightarrow> digest \<Rightarrow> digest" where
  "rounds i [] s = s"
| "rounds i (w # ws) (a, b, c, d, e) =
     rounds (i + 1) ws
       (add32 (add32 (add32 (add32 (RotateLeft32 a 5) (sha1_f i b c d)) e) w) (sha1_k i),
        a, RotateLeft32 b 30, c, d)"

fun block :: "digest \<Rightarrow> nat list \<Rightarrow> digest" where
  "block (h0, h1, h2, h3, h4) p =
     (case rounds 0 (rev (schedule 64 (rev (words p)))) (h0, h1, h2, h3, h4) of
        (a, b, c, d, e) \<Rightarrow> (add32 h0 a, add32 h1 b, add32 h2 c, add32 h3 d, add32 h4 e))"

fun blocks :: "digest \<Rightarrow> nat list \<Rightarrow> digest" where
  "blocks h p = (if length p < 64 then h else blocks (block h (take 64 p)) (drop 64 p))"

declare blocks.simps [simp del]

definition sha1 :: "nat list \<Rightarrow> nat list" where
  "sha1 m =
     (case blocks (0x67452301, 0xEFCDAB89, 0x98BADCFE, 0x10325476, 0xC3D2E1F0) (sha1_pad m) of
        (h0, h1, h2, h3, h4) \<Rightarrow>
          PutUint32 h0 @ PutUint32 h1 @ PutUint32 h2 @ PutUint32 h3 @ PutUint32 h4)"

definition encodeStd :: string where
  "encodeStd = ''ABCDEFGHIJKLMNOPQRSTUVWXYZabcdefghijklmnopqrstuvwxyz0123456789+/''"

text \<open>\<^verbatim>\<open>base64.StdEncoding.EncodeToString\<close>: three bytes give four characters; the last
  group is padded with \<open>=\<close>.\<close>

fun EncodeToString :: "nat list \<Rightarrow> string" where
  "EncodeToString (a # b # c # r) =
     [encodeStd ! (drop_bit 2 a),
      encodeStd ! ((push_bit 4 a OR drop_bit 4 b) AND 0x3F),
      encodeStd ! ((push_bit 2 b OR drop_bit 6 c) AND 0x3F),
      encodeStd ! (c AND 0x3F)] @ EncodeToString r"
| "EncodeToString [a, b] =
     [encodeStd ! (drop_bit 2 a),
      encodeStd ! ((push_bit 4 a OR drop_bit 4 b) AND 0x3F),
      encodeStd ! (push_bit 2 b AND 0x3F), CHR ''='']"
| "EncodeToString [a] =
     [encodeStd ! (drop_bit 2 a), encodeStd ! (push_bit 4 a AND 0x3F), CHR ''='', CHR ''='']"
| "EncodeToString [] = []"

text \<open>The conversion \<^verbatim>\<open>[]byte(s)\<close> of a string.\<close>

definition bytes_of :: "string \<Rightarrow> nat list" where
  "bytes_of s = map of_char s"

subsection \<open>The handler\<close>

text \<open>
  What a call of \<^verbatim>\<open>websocketHandler\<close> does: it answers with \<^verbatim>\<open>http.Error\<close> (the status
  and the message) and returns, or it sets the three response headers, writes the status
  101 and asks for the connection. \<^verbatim>\<open>Hijack\<close> is outside the repository: its result is
  the parameter \<open>hijack\<close>, \<open>None\<close> when it fails. When it succeeds the loop runs on the
  connection, and the deferred \<^verbatim>\<open>conn.Close()\<close> closes it when the handler returns.
\<close>

datatype outcome =
  HttpError nat string
  | HijackFailed nat "(string \<times> string) list"
  | Upgraded nat "(string \<times> string) list" conn

definition Close :: "conn \<Rightarrow> conn" where
  "Close c = c\<lparr>closed := True\<rparr>"

definition websocketHandler :: "header \<Rightarrow> conn option \<Rightarrow> outcome" where
  "websocketHandler h hijack =
     (if Get h ''Connection'' \<noteq> ''Upgrade'' \<or> Get h ''Upgrade'' \<noteq> ''websocket''
      then HttpError StatusBadRequest ''Not a websocket upgrade request''
      else
        let secWebSocketKey = Get h ''Sec-WebSocket-Key'' in
        if secWebSocketKey = [] then HttpError StatusBadRequest ''Bad WebSocket handshake''
        else
          let acceptKey = EncodeToString (sha1 (bytes_of (secWebSocketKey @ magicGUID)));
              hs = [(''Upgrade'', ''websocket''), (''Connection'', ''Upgrade''),
                    (''Sec-WebSocket-Accept'', acceptKey)]
          in (case hijack of
                None \<Rightarrow> HijackFailed StatusSwitchingProtocols hs
              | Some c \<Rightarrow> Upgraded StatusSwitchingProtocols hs (Close (serveLoop c))))"

text \<open>The response headers that a call of the handler has set and sent.\<close>

fun responseHeaders :: "outcome \<Rightarrow> (string \<times> string) list" where
  "responseHeaders (HttpError code msg) = []"
| "responseHeaders (HijackFailed code hs) = hs"
| "responseHeaders (Upgraded code hs c) = hs"

section \<open>Reading a whole frame\<close>

lemma ReadFull_exact: "length xs = n \<Longrightarrow> ReadFull n (xs @ rest) = (None, xs, rest)"
  by (simp add: ReadFull_def)

lemma ReadFull_header: "ReadFull 2 (b0 # b1 # r) = (None, [b0, b1], r)"
  by (simp add: ReadFull_def)

lemma ReadFull_zero: "ReadFull 0 r = (None, [], r)"
  by (simp add: ReadFull_def)

lemma maskLoop_closed:
  "i \<le> length p \<Longrightarrow>
   maskLoop i (length p) k p = take i p @ map (\<lambda>j. p ! j XOR k ! (j mod 4)) [i..<length p]"
proof (induction "length p - i" arbitrary: i p)
  case 0
  then have "i = length p" by simp
  then show ?case
    by (subst maskLoop.simps) simp
next
  case (Suc d)
  then have lt: "i < length p" by simp
  define q where "q = p[i := p ! i XOR k ! (i mod 4)]"
  have len: "length q = length p"
    by (simp add: q_def)
  have step: "maskLoop i (length p) k p = maskLoop (Suc i) (length q) k q"
    using lt by (subst maskLoop.simps) (simp add: q_def)
  have ih: "maskLoop (Suc i) (length q) k q
              = take (Suc i) q @ map (\<lambda>j. q ! j XOR k ! (j mod 4)) [Suc i..<length q]"
    using Suc.hyps(1) [of q "Suc i"] Suc.hyps(2) lt len by simp
  have front: "take (Suc i) q = take i p @ [p ! i XOR k ! (i mod 4)]"
    using lt by (simp add: q_def take_Suc_conv_app_nth)
  have rest_eq: "map (\<lambda>j. q ! j XOR k ! (j mod 4)) [Suc i..<length q]
                = map (\<lambda>j. p ! j XOR k ! (j mod 4)) [Suc i..<length p]"
    by (simp add: q_def)
  have "[i..<length p] = i # [Suc i..<length p]"
    using lt by (simp add: upt_conv_Cons)
  with step ih front rest_eq show ?case
    by simp
qed


lemma maskLoop_length: "length (maskLoop 0 (length p) k p) = length p"
  by (simp add: maskLoop_closed)

lemma maskLoop_nth:
  "j < length p \<Longrightarrow> maskLoop 0 (length p) k p ! j = p ! j XOR k ! (j mod 4)"
  by (simp add: maskLoop_closed)

lemma maskLoop_twice: "maskLoop 0 (length p) k (maskLoop 0 (length p) k p) = p"
proof (rule nth_equalityI)
  show "length (maskLoop 0 (length p) k (maskLoop 0 (length p) k p)) = length p"
    using maskLoop_length [of "maskLoop 0 (length p) k p" k] by (simp add: maskLoop_length)
next
  fix j
  assume "j < length (maskLoop 0 (length p) k (maskLoop 0 (length p) k p))"
  then have j: "j < length p"
    using maskLoop_length [of "maskLoop 0 (length p) k p" k] by (simp add: maskLoop_length)
  have "maskLoop 0 (length p) k (maskLoop 0 (length p) k p) ! j
          = maskLoop 0 (length p) k p ! j XOR k ! (j mod 4)"
    using maskLoop_nth [of j "maskLoop 0 (length p) k p" k] j by (simp add: maskLoop_length)
  also have "\<dots> = p ! j"
    using j by (simp add: maskLoop_nth xor.assoc)
  finally show "maskLoop 0 (length p) k (maskLoop 0 (length p) k p) ! j = p ! j" .
qed

lemma readFrame_complete:
  assumes wire: "completeFrame b1 ext maskingKey body"
    and op: "b0 AND 0x0F \<noteq> 0x8"
  shows "readFrame (b0 # b1 # ext @ maskingKey @ body @ rest) =
           (\<lparr>opcode = b0 AND 0x0F,
             payload = (if b1 AND maskedBit \<noteq> 0
                        then maskLoop 0 (length body) maskingKey body else body),
             err = (if b0 AND finBit \<noteq> 0 then None else Some ErrFragmented)\<rparr>, rest)"
proof -
  from wire have le: "length ext = extLen b1"
    and lk: "length maskingKey = (if b1 AND maskedBit \<noteq> 0 then 4 else 0)"
    and lb: "length body = payloadLenOf b1 ext"
    by (simp_all add: completeFrame_def)
  have key: "(if b1 AND maskedBit \<noteq> 0 then ReadFull 4 (maskingKey @ body @ rest)
              else (None, [], maskingKey @ body @ rest)) = (None, maskingKey, body @ rest)"
    using lk by (cases "b1 AND maskedBit = 0") (simp_all add: ReadFull_exact)
  have pl: "ReadFull (payloadLenOf b1 ext) (body @ rest) = (None, body, rest)"
    using lb by (simp add: ReadFull_exact)
  consider (l16) "unat (b1 AND 0x7F) = 126" | (l64) "unat (b1 AND 0x7F) = 127"
    | (inl) "unat (b1 AND 0x7F) \<noteq> 126" "unat (b1 AND 0x7F) \<noteq> 127"
    by blast
  then show ?thesis
  proof cases
    case l16
    then have "ReadFull 2 (ext @ maskingKey @ body @ rest) = (None, ext, maskingKey @ body @ rest)"
      using le by (simp add: ReadFull_exact extLen_def)
    moreover have "payloadLenOf b1 ext = push_bit 8 (unat (ext ! 0)) OR unat (ext ! 1)"
      using l16 by (simp add: payloadLenOf_def)
    ultimately show ?thesis
      using l16 op key pl lb by (simp add: readFrame_def ReadFull_header Let_def)
  next
    case l64
    then have "ReadFull 8 (ext @ maskingKey @ body @ rest) = (None, ext, maskingKey @ body @ rest)"
      using le by (simp add: ReadFull_exact extLen_def)
    moreover have "payloadLenOf b1 ext =
        push_bit 24 (unat (ext ! 4)) OR push_bit 16 (unat (ext ! 5))
          OR push_bit 8 (unat (ext ! 6)) OR unat (ext ! 7)"
      using l64 by (simp add: payloadLenOf_def)
    ultimately show ?thesis
      using l64 op key pl lb by (simp add: readFrame_def ReadFull_header Let_def)
  next
    case inl
    then have "ext = []"
      using le by (simp add: extLen_def)
    moreover have "payloadLenOf b1 ext = unat (b1 AND 0x7F)"
      using inl by (simp add: payloadLenOf_def)
    ultimately show ?thesis
      using inl op key pl lb by (simp add: readFrame_def ReadFull_header Let_def)
  qed
qed

section \<open>Big-endian lengths\<close>

text \<open>
  The shifts and bitwise ors by which \<^verbatim>\<open>readFrame\<close> puts a length together from bytes
  give the big-endian value of the bytes.
\<close>

lemma or_shift_add:
  fixes a b :: nat
  assumes "b < 2 ^ k"
  shows "push_bit k a OR b = 2 ^ k * a + b"
proof -
  have nb: "\<not> bit b n" if "k \<le> n" for n
  proof -
    have "(2::nat) ^ k \<le> 2 ^ n"
      using that by (simp add: power_increasing)
    with assms have "b < 2 ^ n"
      by (rule less_le_trans)
    then show ?thesis
      by (simp add: bit_iff_odd)
  qed
  have "push_bit k a + b = push_bit k a OR b"
  proof (rule disjunctive_add)
    fix n
    show "\<not> bit (push_bit k a) n \<or> \<not> bit b n"
      using nb [of n] by (auto simp: bit_push_bit_iff)
  qed
  then show ?thesis
    by (simp add: push_bit_eq_mult mult.commute)
qed

lemma unat_byte_less: "unat (x :: byte) < 2 ^ 8"
  using unsigned_less [of x, where 'a = nat] by simp

lemma be16_value:
  "push_bit 8 (unat (e0 :: byte)) OR unat (e1 :: byte) = 2 ^ 8 * unat e0 + unat e1"
  by (rule or_shift_add) (rule unat_byte_less)

lemma be32_value:
  "push_bit 24 (unat (l3 :: byte)) OR push_bit 16 (unat (l2 :: byte))
     OR push_bit 8 (unat (l1 :: byte)) OR unat (l0 :: byte)
   = 2 ^ 24 * unat l3 + 2 ^ 16 * unat l2 + 2 ^ 8 * unat l1 + unat l0"
proof -
  have a: "push_bit 8 (unat l1) OR unat l0 = 2 ^ 8 * unat l1 + unat l0"
    by (rule be16_value)
  have "2 ^ 8 * unat l1 + unat l0 < 2 ^ 16"
    using unat_byte_less [of l1] unat_byte_less [of l0] by simp
  then have b: "push_bit 16 (unat l2) OR (2 ^ 8 * unat l1 + unat l0)
                  = 2 ^ 16 * unat l2 + (2 ^ 8 * unat l1 + unat l0)"
    by (rule or_shift_add)
  have "2 ^ 16 * unat l2 + (2 ^ 8 * unat l1 + unat l0) < 2 ^ 24"
    using unat_byte_less [of l2] unat_byte_less [of l1] unat_byte_less [of l0] by simp
  then have c: "push_bit 24 (unat l3) OR (2 ^ 16 * unat l2 + (2 ^ 8 * unat l1 + unat l0))
                  = 2 ^ 24 * unat l3 + (2 ^ 16 * unat l2 + (2 ^ 8 * unat l1 + unat l0))"
    by (rule or_shift_add)
  show ?thesis
    by (simp only: a b c add.assoc)
qed

section \<open>Header bytes\<close>

text \<open>Facts about the masks of the two header bytes and about the bytes of a length.\<close>

lemma mask7: "(0x7F :: byte) = mask 7" and mask4: "(0x0F :: byte) = mask 4"
  by (simp_all add: mask_eq_exp_minus_1)

lemma low4: "(opc :: byte) < 0x10 \<Longrightarrow> opc AND 0x0F = opc"
  unfolding mask4 by (rule less_mask_eq) simp

lemma low7: "(b :: byte) < 0x80 \<Longrightarrow> b AND 0x7F = b"
  unfolding mask7 by (rule less_mask_eq) simp

lemma byte_of_small: "n < 128 \<Longrightarrow> (of_nat n :: byte) < 0x80"
  by (simp add: word_less_nat_alt unat_of_nat)

lemma low7_small: "n < 128 \<Longrightarrow> unat ((of_nat n :: byte) AND 0x7F) = n"
  by (simp add: low7 byte_of_small unat_of_nat)

lemma bit7_small: "(b :: byte) < 0x80 \<Longrightarrow> b AND maskedBit = 0"
proof -
  assume "b < 0x80"
  then have "b AND 0x7F = b"
    by (rule low7)
  then have "b AND maskedBit = (b AND 0x7F) AND 0x80"
    by (simp add: maskedBit_def)
  also have "\<dots> = b AND (0x7F AND 0x80)"
    by (simp only: and.assoc)
  also have "\<dots> = 0"
    by simp
  finally show ?thesis .
qed

lemma header_byte0:
  "((0x80 :: byte) OR opc) AND 0x0F = opc AND 0x0F" "((0x80 :: byte) OR opc) AND finBit \<noteq> 0"
proof -
  show "((0x80 :: byte) OR opc) AND 0x0F = opc AND 0x0F"
    by (simp add: bit.conj_disj_distrib2)
  have "((0x80 :: byte) OR opc) AND finBit = 0x80 OR (opc AND 0x80)"
    by (simp add: bit.conj_disj_distrib2 finBit_def)
  then show "((0x80 :: byte) OR opc) AND finBit \<noteq> 0"
    by simp
qed

lemma le16: "n \<le> 0xFFFF \<Longrightarrow> 2 ^ 8 * unat (of_nat (drop_bit 8 n) :: byte) + unat (of_nat n :: byte) = n"
  by (simp add: unat_of_nat drop_bit_eq_div)

lemma split_low_byte: "(m :: nat) mod (256 * k) = 256 * (m div 256 mod k) + m mod 256"
  by (rule mod_mult2_eq)

lemma le32: "2 ^ 24 * unat (of_nat (drop_bit 24 n) :: byte) + 2 ^ 16 * unat (of_nat (drop_bit 16 n) :: byte)
     + 2 ^ 8 * unat (of_nat (drop_bit 8 n) :: byte) + unat (of_nat n :: byte) = n mod 2 ^ 32"
proof -
  have d2: "n div 256 div 256 = n div 65536" and d3: "n div 65536 div 256 = n div 16777216"
    by (simp_all add: div_mult2_eq [symmetric])
  have "n mod 2 ^ 32 = n mod (256 * 16777216)"
    by simp
  also have "\<dots> = 256 * (n div 256 mod 16777216) + n mod 256"
    by (rule split_low_byte)
  also have "n div 256 mod 16777216 = (n div 256) mod (256 * 65536)"
    by simp
  also have "\<dots> = 256 * (n div 256 div 256 mod 65536) + n div 256 mod 256"
    by (rule split_low_byte)
  also have "n div 256 div 256 mod 65536 = (n div 65536) mod (256 * 256)"
    by (simp add: d2)
  also have "\<dots> = 256 * (n div 65536 div 256 mod 256) + n div 65536 mod 256"
    by (rule split_low_byte)
  finally have "n mod 2 ^ 32 =
      16777216 * (n div 16777216 mod 256) + 65536 * (n div 65536 mod 256)
        + 256 * (n div 256 mod 256) + n mod 256"
    by (simp add: d3)
  then show ?thesis
    by (simp add: unat_of_nat drop_bit_eq_div)
qed


section \<open>Decoding what \<^verbatim>\<open>writeFrame\<close> writes\<close>

text \<open>
  The three forms of the header, and the round trip: the bytes that \<^verbatim>\<open>writeFrame\<close> writes
  for a four-bit opcode other than close and a payload shorter than \<open>2 ^ 32\<close>, followed by
  anything, are read back by \<^verbatim>\<open>readFrame\<close> as that opcode and payload, with nothing of
  what follows consumed.
\<close>

lemma frameHeader_inline:
  "length p < 126 \<Longrightarrow> frameHeader opc p = [0x80 OR opc, of_nat (length p)]"
  by (simp add: frameHeader_def Let_def)

lemma frameHeader_16:
  "126 \<le> length p \<Longrightarrow> length p \<le> 0xFFFF \<Longrightarrow>
   frameHeader opc p = [0x80 OR opc, 126, of_nat (drop_bit 8 (length p)), of_nat (length p)]"
  by (simp add: frameHeader_def Let_def)

lemma frameHeader_64:
  "0xFFFF < length p \<Longrightarrow>
   frameHeader opc p =
     [0x80 OR opc, 127, 0, 0, 0, 0, of_nat (drop_bit 24 (length p)),
      of_nat (drop_bit 16 (length p)), of_nat (drop_bit 8 (length p)), of_nat (length p)]"
  by (simp add: frameHeader_def Let_def)

lemma readFrame_frameHeader:
  assumes opc: "opc < 0x10" "opc \<noteq> 0x8" and len: "length p < 2 ^ 32"
  shows "readFrame (frameHeader opc p @ p @ rest) = (\<lparr>opcode = opc, payload = p, err = None\<rparr>, rest)"
proof -
  have o: "(0x80 OR opc) AND 0x0F = opc"
    using opc(1) by (simp add: header_byte0 low4)
  then have o8: "(0x80 OR opc) AND 0x0F \<noteq> 0x8"
    using opc(2) by simp
  have f: "(0x80 OR opc) AND finBit \<noteq> 0"
    by (rule header_byte0)
  consider (inl) "length p < 126" | (l16) "126 \<le> length p" "length p \<le> 0xFFFF"
    | (l64) "0xFFFF < length p"
    by linarith
  then show ?thesis
  proof cases
    case inl
    then have n: "length p < 128" by simp
    have "completeFrame (of_nat (length p)) [] [] p"
      using inl by (simp add: completeFrame_def extLen_def payloadLenOf_def
          low7_small [OF n] bit7_small [OF byte_of_small [OF n]])
    from readFrame_complete [OF this o8, of rest] show ?thesis
      using inl o f by (simp add: frameHeader_inline bit7_small [OF byte_of_small [OF n]])
  next
    case l16
    have m: "(126 :: byte) AND maskedBit = 0"
      by (simp add: maskedBit_def)
    have "push_bit 8 (unat (of_nat (drop_bit 8 (length p)) :: byte))
            OR unat (of_nat (length p) :: byte) = length p"
      using le16 [OF l16(2)] by (simp only: be16_value)
    then have "completeFrame 126 [of_nat (drop_bit 8 (length p)), of_nat (length p)] [] p"
      by (simp add: completeFrame_def extLen_def payloadLenOf_def m)
    from readFrame_complete [OF this o8, of rest] show ?thesis
      using l16 o f m by (simp add: frameHeader_16)
  next
    case l64
    have m: "(127 :: byte) AND maskedBit = 0"
      by (simp add: maskedBit_def)
    have "length p mod 2 ^ 32 = length p"
      using len by simp
    then have "push_bit 24 (unat (of_nat (drop_bit 24 (length p)) :: byte))
            OR push_bit 16 (unat (of_nat (drop_bit 16 (length p)) :: byte))
            OR push_bit 8 (unat (of_nat (drop_bit 8 (length p)) :: byte))
            OR unat (of_nat (length p) :: byte) = length p"
      using le32 [of "length p"] by (simp only: be32_value)
    then have "completeFrame 127
            [0, 0, 0, 0, of_nat (drop_bit 24 (length p)), of_nat (drop_bit 16 (length p)),
             of_nat (drop_bit 8 (length p)), of_nat (length p)] [] p"
      by (simp add: completeFrame_def extLen_def payloadLenOf_def m)
    from readFrame_complete [OF this o8, of rest] show ?thesis
      using l64 o f m by (simp add: frameHeader_64)
  qed
qed

section \<open>What a decoded frame can be\<close>

text \<open>
  A frame that \<^verbatim>\<open>readFrame\<close> returns without error has an opcode of four bits and a
  payload shorter than \<open>2 ^ 32\<close> bytes.
\<close>

lemma low4_less: "(x :: byte) AND 0x0F < 0x10"
proof -
  have "x AND 0x0F \<le> 0x0F"
    by (rule word_and_le1)
  then show ?thesis
    by (simp add: word_le_nat_alt word_less_nat_alt)
qed

lemma ReadFull_length: "ReadFull n r = (None, p, r') \<Longrightarrow> length p = n"
  by (auto simp: ReadFull_def split: if_splits)

lemma len7_bound: "unat ((b :: byte) AND 0x7F) < 2 ^ 32"
  using unat_byte_less [of "b AND 0x7F"] by simp

lemma len16_bound: "push_bit 8 (unat (e0 :: byte)) OR unat (e1 :: byte) < 2 ^ 32"
  using unat_byte_less [of e0] unat_byte_less [of e1] by (simp only: be16_value) simp

lemma len32_bound:
  "push_bit 24 (unat (l3 :: byte)) OR push_bit 16 (unat (l2 :: byte))
     OR push_bit 8 (unat (l1 :: byte)) OR unat (l0 :: byte) < 2 ^ 32"
  using unat_byte_less [of l3] unat_byte_less [of l2] unat_byte_less [of l1]
    unat_byte_less [of l0]
  by (simp only: be32_value) simp

lemma maskLoop_length': "length p = n \<Longrightarrow> length (maskLoop 0 n k p) = n"
  using maskLoop_length [of p k] by simp

lemma ReadFull_None_iff:
  "ReadFull n r = (None, p, r') \<longleftrightarrow> n \<le> length r \<and> p = take n r \<and> r' = drop n r"
  by (auto simp: ReadFull_def)

lemma readFrame_result_bounds:
  assumes "readFrame r = (res, r')" and "err res = None"
  shows "opcode res < 0x10 \<and> length (payload res) < 2 ^ 32"
  using assms
  apply (simp add: readFrame_def Let_def ReadFull_None_iff
      split: prod.splits option.splits if_splits)
  apply (auto simp: low4_less maskLoop_length' min_def
      len7_bound [simplified] len16_bound [simplified] len32_bound [simplified])
  done


section \<open>Writing frames and the steps of the loop\<close>

lemma writeFrame_ok:
  assumes "canWrite w (length (frameHeader opc p) + length p)"
  shows "writeFrame w opc p = (None, afterWrite w (frameHeader opc p @ p))"
  using assms
  by (cases "room w") (simp_all add: canWrite_def afterWrite_def writeFrame_def Write_def)

lemma writeFrame_unread: "unread (snd (writeFrame w opc p)) = unread w"
  by (cases "room w") (simp_all add: writeFrame_def Write_def split: prod.splits option.splits)

lemma writeFrame_closed: "closed (snd (writeFrame w opc p)) = closed w"
  by (cases "room w") (simp_all add: writeFrame_def Write_def split: prod.splits option.splits)

lemma writeFrame_written:
  "written (snd (writeFrame w opc p)) =
     written w @ (case room w of None \<Rightarrow> frameHeader opc p @ p
                  | Some k \<Rightarrow> take k (frameHeader opc p @ p))"
  by (cases "room w") (auto simp: writeFrame_def Write_def split: prod.splits option.splits)


lemma frameHeader_unmasked: "frameHeader opc p ! 1 AND maskedBit = 0"
proof -
  consider (inl) "length p < 126" | (l16) "126 \<le> length p" "length p \<le> 0xFFFF"
    | (l64) "0xFFFF < length p"
    by linarith
  then show ?thesis
  proof cases
    case inl
    then have "length p < 128" by simp
    then show ?thesis
      using inl by (simp add: frameHeader_inline bit7_small byte_of_small)
  next
    case l16
    then show ?thesis
      by (simp add: frameHeader_16 maskedBit_def)
  next
    case l64
    then show ?thesis
      by (simp add: frameHeader_64 maskedBit_def)
  qed
qed

lemma frameHeader_first: "frameHeader opc p ! 0 = 0x80 OR opc"
  by (simp add: frameHeader_def Let_def)

lemma serveLoop_echo:
  assumes "readFrame (unread c) = (res, r')" and "err res = None" and "opcode res \<noteq> 0x8"
    and "canWrite c (length (frameHeader (opcode res) (payload res)) + length (payload res))"
  shows "serveLoop c =
    serveLoop (afterWrite (c\<lparr>unread := r'\<rparr>) (frameHeader (opcode res) (payload res) @ payload res))"
proof -
  have "canWrite (c\<lparr>unread := r'\<rparr>)
          (length (frameHeader (opcode res) (payload res)) + length (payload res))"
    using assms(4) by (simp add: canWrite_def)
  then have "writeFrame (c\<lparr>unread := r'\<rparr>) (opcode res) (payload res) =
      (None, afterWrite (c\<lparr>unread := r'\<rparr>) (frameHeader (opcode res) (payload res) @ payload res))"
    by (rule writeFrame_ok)
  then show ?thesis
    using assms(1-3) by (subst serveLoop.simps) simp
qed

lemma closeFrame_payload:
  "writeCloseFrame w 0x8 ''bye'' = writeFrame w 0x8 [0x00, 0x08, 0x62, 0x79, 0x65]"
proof -
  have "replicate 5 (0 :: byte) = [0, 0, 0, 0, 0]"
    by (simp add: numeral_eq_Suc)
  then show ?thesis
    by (simp add: writeCloseFrame_def)
qed

lemma closeFrame_header: "frameHeader 0x8 [0x00, 0x08, 0x62, 0x79, 0x65] = [0x88, 0x05]"
  by (simp add: frameHeader_def)

lemma serveLoop_close:
  assumes "readFrame (unread c) = (res, r')" and "err res = None" and "opcode res = 0x8"
  shows "serveLoop c = snd (writeFrame (c\<lparr>unread := r'\<rparr>) 0x8 [0x00, 0x08, 0x62, 0x79, 0x65])"
  using assms
  by (subst serveLoop.simps) (simp add: closeFrame_payload split: prod.splits option.splits)

section \<open>Round trip and the boundaries of the length field\<close>

text \<open>
  Claim C3. For every opcode of four bits other than close and every payload shorter than
  \<open>2 ^ 32\<close> bytes, so in particular for the lengths 0, 125, 126, 65535 and 65536,
  \<^verbatim>\<open>readFrame\<close> on the bytes written by \<^verbatim>\<open>writeFrame\<close> returns the same opcode and the
  same payload, without error and without consuming what follows. The header written has
  one length byte when the payload is shorter than 126, the byte 126 and a big-endian
  16-bit length when it is at most \<open>0xFFFF\<close> long, and otherwise the byte 127 and eight
  bytes of length; the length \<^verbatim>\<open>readFrame\<close> computes from that header is the length of
  the payload. These header and payload bytes are what \<^verbatim>\<open>writeFrame\<close> writes to a
  connection that takes them.
\<close>

theorem encode_decode_boundaries:
  assumes "opc < 0x10" and "opc \<noteq> 0x8"
    and "length p < 2 ^ 32"
  shows "readFrame (frameHeader opc p @ p @ rest) = (\<lparr>opcode = opc, payload = p, err = None\<rparr>, rest)
    \<and> frameHeader opc p =
        (0x80 OR opc) #
        (if length p < 126 then [of_nat (length p)]
         else if length p \<le> 0xFFFF then
           [126, of_nat (length p div 2 ^ 8), of_nat (length p)]
         else [127, 0, 0, 0, 0, of_nat (length p div 2 ^ 24), of_nat (length p div 2 ^ 16),
               of_nat (length p div 2 ^ 8), of_nat (length p)])
    \<and> payloadLenOf (frameHeader opc p ! 1) (drop 2 (frameHeader opc p)) = length p
    \<and> writeFrame \<lparr>unread = u, written = ws, room = None, closed = b\<rparr> opc p =
        (None, \<lparr>unread = u, written = ws @ frameHeader opc p @ p, room = None, closed = b\<rparr>)"
proof -
  note len = assms(3)
  have rt: "readFrame (frameHeader opc p @ p @ rest) = (\<lparr>opcode = opc, payload = p, err = None\<rparr>, rest)"
    using assms(1,2) len by (rule readFrame_frameHeader)
  have hd: "frameHeader opc p =
        (0x80 OR opc) #
        (if length p < 126 then [of_nat (length p)]
         else if length p \<le> 0xFFFF then
           [126, of_nat (length p div 2 ^ 8), of_nat (length p)]
         else [127, 0, 0, 0, 0, of_nat (length p div 2 ^ 24), of_nat (length p div 2 ^ 16),
               of_nat (length p div 2 ^ 8), of_nat (length p)])"
    by (simp add: frameHeader_def Let_def drop_bit_eq_div)
  have pl: "payloadLenOf (frameHeader opc p ! 1) (drop 2 (frameHeader opc p)) = length p"
  proof -
    consider (inl) "length p < 126" | (l16) "126 \<le> length p" "length p \<le> 0xFFFF"
      | (l64) "0xFFFF < length p"
      by linarith
    then show ?thesis
    proof cases
      case inl
      then have "length p < 128" by simp
      then show ?thesis
        using inl by (simp add: frameHeader_inline payloadLenOf_def low7_small)
    next
      case l16
      have "push_bit 8 (unat (of_nat (drop_bit 8 (length p)) :: byte))
              OR unat (of_nat (length p) :: byte) = length p"
        using le16 [OF l16(2)] by (simp only: be16_value)
      then show ?thesis
        using l16 by (simp add: frameHeader_16 payloadLenOf_def)
    next
      case l64
      have "length p mod 2 ^ 32 = length p"
        using len by simp
      then have "push_bit 24 (unat (of_nat (drop_bit 24 (length p)) :: byte))
              OR push_bit 16 (unat (of_nat (drop_bit 16 (length p)) :: byte))
              OR push_bit 8 (unat (of_nat (drop_bit 8 (length p)) :: byte))
              OR unat (of_nat (length p) :: byte) = length p"
        using le32 [of "length p"] by (simp only: be32_value)
      then show ?thesis
        using l64 by (simp add: frameHeader_64 payloadLenOf_def)
    qed
  qed
  have wr: "writeFrame \<lparr>unread = u, written = ws, room = None, closed = b\<rparr> opc p =
        (None, \<lparr>unread = u, written = ws @ frameHeader opc p @ p, room = None, closed = b\<rparr>)"
    by (simp add: writeFrame_def Write_def)
  from rt hd pl wr show ?thesis
    by (intro conjI)
qed


theorem encode_decode_boundaries_witness:
  "readFrame (frameHeader 0x2 [] @ [] @ [0x99]) = (\<lparr>opcode = 0x2, payload = [], err = None\<rparr>, [0x99])
   \<and> frameHeader 0x2 [] = [0x82, 0]
   \<and> readFrame (frameHeader 0x2 (replicate 125 0x41) @ replicate 125 0x41 @ [0x99])
       = (\<lparr>opcode = 0x2, payload = replicate 125 0x41, err = None\<rparr>, [0x99])
   \<and> frameHeader 0x2 (replicate 125 0x41) = [0x82, 125]
   \<and> readFrame (frameHeader 0x2 (replicate 126 0x41) @ replicate 126 0x41 @ [0x99])
       = (\<lparr>opcode = 0x2, payload = replicate 126 0x41, err = None\<rparr>, [0x99])
   \<and> frameHeader 0x2 (replicate 126 0x41) = [0x82, 126, 0, 126]
   \<and> readFrame (frameHeader 0x2 (replicate 65535 0x41) @ replicate 65535 0x41 @ [0x99])
       = (\<lparr>opcode = 0x2, payload = replicate 65535 0x41, err = None\<rparr>, [0x99])
   \<and> frameHeader 0x2 (replicate 65535 0x41) = [0x82, 126, 0xFF, 0xFF]
   \<and> readFrame (frameHeader 0x2 (replicate 65536 0x41) @ replicate 65536 0x41 @ [0x99])
       = (\<lparr>opcode = 0x2, payload = replicate 65536 0x41, err = None\<rparr>, [0x99])
   \<and> frameHeader 0x2 (replicate 65536 0x41) = [0x82, 127, 0, 0, 0, 0, 0, 1, 0, 0]"
proof -
  have o: "(0x2 :: byte) < 0x10" "(0x2 :: byte) \<noteq> 0x8"
    by simp_all
  have b: "(0x80 :: byte) OR 0x2 = 0x82"
    by simp
  have l0: "length ([] :: byte list) < 2 ^ 32"
    by simp
  note t0 = encode_decode_boundaries [OF o l0, of "[0x99]"]
  from t0 have w0: "readFrame (frameHeader 0x2 [] @ [] @ [0x99])
       = (\<lparr>opcode = 0x2, payload = [], err = None\<rparr>, [0x99])"
    by (rule conjunct1)
  from t0 [THEN conjunct2] have h0: "frameHeader 0x2 [] = [0x82, 0]"
    by (simp add: b)
  have l1: "length (replicate 125 0x41 :: byte list) < 2 ^ 32"
    by simp
  note t1 = encode_decode_boundaries [OF o l1, of "[0x99]"]
  from t1 have w1: "readFrame (frameHeader 0x2 (replicate 125 0x41) @ (replicate 125 0x41) @ [0x99])
       = (\<lparr>opcode = 0x2, payload = (replicate 125 0x41), err = None\<rparr>, [0x99])"
    by (rule conjunct1)
  from t1 [THEN conjunct2] have h1: "frameHeader 0x2 (replicate 125 0x41) = [0x82, 125]"
    by (simp add: b)
  have l2: "length (replicate 126 0x41 :: byte list) < 2 ^ 32"
    by simp
  note t2 = encode_decode_boundaries [OF o l2, of "[0x99]"]
  from t2 have w2: "readFrame (frameHeader 0x2 (replicate 126 0x41) @ (replicate 126 0x41) @ [0x99])
       = (\<lparr>opcode = 0x2, payload = (replicate 126 0x41), err = None\<rparr>, [0x99])"
    by (rule conjunct1)
  from t2 [THEN conjunct2] have h2: "frameHeader 0x2 (replicate 126 0x41) = [0x82, 126, 0, 126]"
    by (simp add: b)
  have l3: "length (replicate 65535 0x41 :: byte list) < 2 ^ 32"
    by simp
  note t3 = encode_decode_boundaries [OF o l3, of "[0x99]"]
  from t3 have w3: "readFrame (frameHeader 0x2 (replicate 65535 0x41) @ (replicate 65535 0x41) @ [0x99])
       = (\<lparr>opcode = 0x2, payload = (replicate 65535 0x41), err = None\<rparr>, [0x99])"
    by (rule conjunct1)
  from t3 [THEN conjunct2] have h3: "frameHeader 0x2 (replicate 65535 0x41) = [0x82, 126, 0xFF, 0xFF]"
    by (simp add: b)
  have l4: "length (replicate 65536 0x41 :: byte list) < 2 ^ 32"
    by simp
  note t4 = encode_decode_boundaries [OF o l4, of "[0x99]"]
  from t4 have w4: "readFrame (frameHeader 0x2 (replicate 65536 0x41) @ (replicate 65536 0x41) @ [0x99])
       = (\<lparr>opcode = 0x2, payload = (replicate 65536 0x41), err = None\<rparr>, [0x99])"
    by (rule conjunct1)
  from t4 [THEN conjunct2] have h4: "frameHeader 0x2 (replicate 65536 0x41) = [0x82, 127, 0, 0, 0, 0, 0, 1, 0, 0]"
    by (simp add: b)
  from w0 h0 w1 h1 w2 h2 w3 h3 w4 h4 show ?thesis
    by (intro conjI)
qed

section \<open>The 64-bit length field\<close>

text \<open>
  Claim C7. When the length field of the second header byte is 127 and the opcode is not
  close, \<^verbatim>\<open>readFrame\<close> reads eight bytes of extended length, and the payload is as long as
  the big-endian value of the last four of them; the first four, \<open>x0\<close> to \<open>x3\<close>, have no
  effect on the result. The frame is read whole when the stream holds that many bytes of
  payload after the masking key, and the rest of the stream follows the payload. On the
  other side, for a payload longer than \<open>0xFFFF\<close> the header written starts with the first
  byte, the byte 127 and four zero bytes, and ends with four bytes whose big-endian value
  is the length modulo \<open>2 ^ 32\<close>.
\<close>

theorem length127_low32:
  "(unat (b1 AND 0x7F) = 127 \<and> b0 AND 0x0F \<noteq> 0x8
      \<and> length maskingKey = (if b1 AND maskedBit \<noteq> 0 then 4 else 0)
      \<and> length body = 2 ^ 24 * unat l3 + 2 ^ 16 * unat l2 + 2 ^ 8 * unat l1 + unat l0
    \<longrightarrow> readFrame (b0 # b1 # [x0, x1, x2, x3, l3, l2, l1, l0] @ maskingKey @ body @ rest) =
          (\<lparr>opcode = b0 AND 0x0F,
            payload = (if b1 AND maskedBit \<noteq> 0
                       then maskLoop 0 (length body) maskingKey body else body),
            err = (if b0 AND finBit \<noteq> 0 then None else Some ErrFragmented)\<rparr>, rest)
        \<and> length (payload (fst (readFrame
              (b0 # b1 # [x0, x1, x2, x3, l3, l2, l1, l0] @ maskingKey @ body @ rest))))
            = 2 ^ 24 * unat l3 + 2 ^ 16 * unat l2 + 2 ^ 8 * unat l1 + unat l0)
   \<and> (0xFFFF < length p
    \<longrightarrow> frameHeader opc p =
          [0x80 OR opc, 127, 0, 0, 0, 0,
           of_nat (length p div 2 ^ 24), of_nat (length p div 2 ^ 16),
           of_nat (length p div 2 ^ 8), of_nat (length p)]
        \<and> 2 ^ 24 * unat (of_nat (length p div 2 ^ 24) :: byte)
            + 2 ^ 16 * unat (of_nat (length p div 2 ^ 16) :: byte)
            + 2 ^ 8 * unat (of_nat (length p div 2 ^ 8) :: byte)
            + unat (of_nat (length p) :: byte) = length p mod 2 ^ 32)"
proof (intro conjI impI)
  assume h: "unat (b1 AND 0x7F) = 127 \<and> b0 AND 0x0F \<noteq> 0x8
      \<and> length maskingKey = (if b1 AND maskedBit \<noteq> 0 then 4 else 0)
      \<and> length body = 2 ^ 24 * unat l3 + 2 ^ 16 * unat l2 + 2 ^ 8 * unat l1 + unat l0"
  then have "length body = push_bit 24 (unat l3) OR push_bit 16 (unat l2)
      OR push_bit 8 (unat l1) OR unat l0"
    by (simp only: be32_value)
  with h have "completeFrame b1 [x0, x1, x2, x3, l3, l2, l1, l0] maskingKey body"
    by (simp add: completeFrame_def extLen_def payloadLenOf_def)
  moreover from h have "b0 AND 0x0F \<noteq> 0x8"
    by simp
  ultimately show r: "readFrame (b0 # b1 # [x0, x1, x2, x3, l3, l2, l1, l0] @ maskingKey @ body @ rest) =
          (\<lparr>opcode = b0 AND 0x0F,
            payload = (if b1 AND maskedBit \<noteq> 0
                       then maskLoop 0 (length body) maskingKey body else body),
            err = (if b0 AND finBit \<noteq> 0 then None else Some ErrFragmented)\<rparr>, rest)"
    by (rule readFrame_complete)
  have "length (if b1 AND maskedBit \<noteq> 0
                then maskLoop 0 (length body) maskingKey body else body) = length body"
    by (simp add: maskLoop_length)
  moreover from h have "length body = 2 ^ 24 * unat l3 + 2 ^ 16 * unat l2 + 2 ^ 8 * unat l1 + unat l0"
    by simp
  ultimately show "length (payload (fst (readFrame
              (b0 # b1 # [x0, x1, x2, x3, l3, l2, l1, l0] @ maskingKey @ body @ rest))))
            = 2 ^ 24 * unat l3 + 2 ^ 16 * unat l2 + 2 ^ 8 * unat l1 + unat l0"
    by (simp only: r fst_conv frame_result.simps)
next
  assume "0xFFFF < length p"
  then show "frameHeader opc p =
          [0x80 OR opc, 127, 0, 0, 0, 0,
           of_nat (length p div 2 ^ 24), of_nat (length p div 2 ^ 16),
           of_nat (length p div 2 ^ 8), of_nat (length p)]"
    by (simp add: frameHeader_64 drop_bit_eq_div)
next
  show "2 ^ 24 * unat (of_nat (length p div 2 ^ 24) :: byte)
            + 2 ^ 16 * unat (of_nat (length p div 2 ^ 16) :: byte)
            + 2 ^ 8 * unat (of_nat (length p div 2 ^ 8) :: byte)
            + unat (of_nat (length p) :: byte) = length p mod 2 ^ 32"
    using le32 [of "length p"] by (simp only: drop_bit_eq_div)
qed

theorem length127_low32_witness:
  "readFrame [0x82, 0x7F, 0xDE, 0xAD, 0xBE, 0xEF, 0, 0, 0, 3, 0x41, 0x42, 0x43, 0x99] =
     (\<lparr>opcode = 0x2, payload = [0x41, 0x42, 0x43], err = None\<rparr>, [0x99])
   \<and> frameHeader 0x2 (replicate 65536 0x41) = [0x82, 127, 0, 0, 0, 0, 0, 1, 0, 0]"
proof -
  note t = length127_low32 [of "0x7F" "0x82" "[]" "[0x41, 0x42, 0x43]" 0 0 0 3
      "0xDE" "0xAD" "0xBE" "0xEF" "[0x99]" "replicate 65536 0x41" "0x2"]
  have "unat ((0x7F :: byte) AND 0x7F) = 127 \<and> (0x82 :: byte) AND 0x0F \<noteq> 0x8
      \<and> length ([] :: byte list) = (if (0x7F :: byte) AND maskedBit \<noteq> 0 then 4 else 0)
      \<and> length [0x41, 0x42, 0x43 :: byte]
          = 2 ^ 24 * unat (0 :: byte) + 2 ^ 16 * unat (0 :: byte) + 2 ^ 8 * unat (0 :: byte)
            + unat (3 :: byte)"
    by (simp add: maskedBit_def)
  with t [THEN conjunct1]
  have a: "readFrame [0x82, 0x7F, 0xDE, 0xAD, 0xBE, 0xEF, 0, 0, 0, 3, 0x41, 0x42, 0x43, 0x99] =
     (\<lparr>opcode = 0x2, payload = [0x41, 0x42, 0x43], err = None\<rparr>, [0x99])"
    by (simp add: maskedBit_def finBit_def)
  have "0xFFFF < length (replicate 65536 (0x41 :: byte))"
    by simp
  with t [THEN conjunct2]
  have b: "frameHeader 0x2 (replicate 65536 0x41) = [0x82, 127, 0, 0, 0, 0, 0, 1, 0, 0]"
    by simp
  from a b show ?thesis
    by (rule conjI)
qed

section \<open>The close opcode ends decoding after the header\<close>

text \<open>
  Claim C4. When the first two bytes of the stream carry the opcode \<open>0x8\<close>, \<^verbatim>\<open>readFrame\<close>
  returns right after them: the opcode is \<open>0x8\<close>, the payload is empty, there is no error,
  and the rest of the stream is everything after the two header bytes, whatever the fin
  bit, the mask bit and the length field say.
\<close>

theorem readFrame_close_short_circuit:
  assumes "b0 AND 0x0F = 0x8"
  shows "readFrame (b0 # b1 # rest) = (\<lparr>opcode = 0x8, payload = [], err = None\<rparr>, rest)"
  using assms by (simp add: readFrame_def ReadFull_header Let_def)

theorem readFrame_close_short_circuit_witness:
  "readFrame [0x88, 0xFF, 0xAA, 0xBB] = (\<lparr>opcode = 0x8, payload = [], err = None\<rparr>, [0xAA, 0xBB])
   \<and> readFrame [0x08, 0x7E] = (\<lparr>opcode = 0x8, payload = [], err = None\<rparr>, [])"
  using readFrame_close_short_circuit [of "0x88" "0xFF" "[0xAA, 0xBB]"]
    readFrame_close_short_circuit [of "0x08" "0x7E" "[]"]
  by simp

section \<open>The reserved bits are not looked at\<close>

text \<open>
  Claim C10. Two streams that differ only in the bits 4 to 6 of their first byte (the
  bits outside the mask \<open>0x8F\<close>) give the same result of \<^verbatim>\<open>readFrame\<close>: the same opcode,
  payload and error, and the same rest of the stream. A frame with reserved bits set is
  decoded like the frame without them.
\<close>

theorem readFrame_ignores_rsv:
  assumes "b0 AND 0x8F = b0' AND 0x8F"
  shows "readFrame (b0 # r) = readFrame (b0' # r)"
proof -
  have "(b0 AND 0x8F) AND finBit = (b0' AND 0x8F) AND finBit"
    and "(b0 AND 0x8F) AND 0x0F = (b0' AND 0x8F) AND 0x0F"
    using assms by simp_all
  then have f: "b0 AND finBit = b0' AND finBit" and o: "b0 AND 0x0F = b0' AND 0x0F"
    by (simp_all add: and.assoc finBit_def)
  show ?thesis
  proof (cases r)
    case Nil
    then show ?thesis
      by (simp add: readFrame_def ReadFull_def)
  next
    case (Cons b1 r')
    then show ?thesis
      by (simp add: readFrame_def ReadFull_header f o)
  qed
qed

theorem readFrame_ignores_rsv_witness:
  "readFrame [0xF1, 0x02, 0x41, 0x42] = readFrame [0x81, 0x02, 0x41, 0x42]
   \<and> readFrame [0x81, 0x02, 0x41, 0x42] = (\<lparr>opcode = 0x1, payload = [0x41, 0x42], err = None\<rparr>, [])"
proof -
  have "readFrame [0x81, 0x02, 0x41, 0x42] = (\<lparr>opcode = 0x1, payload = [0x41, 0x42], err = None\<rparr>, [])"
    using readFrame_complete [of "0x02" "[]" "[]" "[0x41, 0x42]" "0x81" "[]"]
    by (simp add: completeFrame_def extLen_def payloadLenOf_def maskedBit_def finBit_def)
  then show ?thesis
    using readFrame_ignores_rsv [of "0xF1" "0x81" "[0x02, 0x41, 0x42]"] by simp
qed

section \<open>Frames without the fin bit\<close>

text \<open>
  Claim C2, as the code has it. For a whole frame on the wire whose fin bit is \<open>0\<close> and
  whose opcode is not close (\<open>0x8\<close>), \<^verbatim>\<open>readFrame\<close> reports the fragmentation error, for
  every other opcode, length form, masking key and payload, and it has consumed exactly
  the bytes of the frame: the rest of the stream is what follows the payload.
\<close>

theorem readFrame_fragment_rejected:
  assumes "completeFrame b1 ext maskingKey body"
    and "b0 AND finBit = 0"
    and "b0 AND 0x0F \<noteq> 0x8"
  shows "readFrame (b0 # b1 # ext @ maskingKey @ body @ rest) =
           (\<lparr>opcode = b0 AND 0x0F,
             payload = (if b1 AND maskedBit \<noteq> 0
                        then maskLoop 0 (length body) maskingKey body else body),
             err = Some ErrFragmented\<rparr>, rest)"
  using readFrame_complete [OF assms(1) assms(3), of rest] assms(2) by simp

theorem readFrame_fragment_rejected_witness:
  "readFrame [0x01, 0x02, 0x41, 0x42, 0x99] =
     (\<lparr>opcode = 0x1, payload = [0x41, 0x42], err = Some ErrFragmented\<rparr>, [0x99])"
  using readFrame_fragment_rejected [of "0x02" "[]" "[]" "[0x41, 0x42]" "0x01" "[0x99]"]
  by (simp add: completeFrame_def extLen_def payloadLenOf_def maskedBit_def finBit_def)

text \<open>
  The claim as it is written covers every opcode. For the close opcode it fails: the
  frame below has the fin bit \<open>0\<close>, the opcode \<open>0x8\<close> and two bytes of payload, and
  \<^verbatim>\<open>readFrame\<close> reports no error and leaves the payload in the stream, since the test
  of the opcode returns before the test of the fin bit.
\<close>

theorem fragment_close_counterexample:
  "completeFrame 0x02 [] [] [0x41, 0x42] \<and> (0x08 :: byte) AND finBit = 0
   \<and> readFrame ([0x08, 0x02] @ [] @ [] @ [0x41, 0x42] @ []) =
        (\<lparr>opcode = 0x8, payload = [], err = None\<rparr>, [0x41, 0x42])"
  by (simp add: completeFrame_def extLen_def payloadLenOf_def maskedBit_def finBit_def
      readFrame_def ReadFull_header)

section \<open>Masking\<close>

text \<open>
  Claim C9. For a masking key of four bytes and every payload, the loop that replaces
  byte \<open>i\<close> by its exclusive or with \<open>maskingKey[i % 4]\<close>, run twice, gives the payload
  back. Hence, for a whole masked frame whose body is the client's payload masked with
  the key, \<^verbatim>\<open>readFrame\<close> returns the client's payload.
\<close>

theorem mask_self_inverse:
  assumes "length maskingKey = 4"
  shows "maskLoop 0 (length p) maskingKey (maskLoop 0 (length p) maskingKey p) = p
    \<and> (\<forall>b0 b1 ext rest.
          b0 AND 0x0F \<noteq> 0x8 \<and> b1 AND maskedBit \<noteq> 0
          \<and> completeFrame b1 ext maskingKey (maskLoop 0 (length p) maskingKey p)
          \<longrightarrow> readFrame (b0 # b1 # ext @ maskingKey @ maskLoop 0 (length p) maskingKey p @ rest)
                = (\<lparr>opcode = b0 AND 0x0F, payload = p,
                    err = (if b0 AND finBit \<noteq> 0 then None else Some ErrFragmented)\<rparr>, rest))"
proof (intro conjI allI impI)
  show "maskLoop 0 (length p) maskingKey (maskLoop 0 (length p) maskingKey p) = p"
    by (rule maskLoop_twice)
next
  fix b0 b1 :: byte and ext rest :: "byte list"
  assume h: "b0 AND 0x0F \<noteq> 0x8 \<and> b1 AND maskedBit \<noteq> 0
    \<and> completeFrame b1 ext maskingKey (maskLoop 0 (length p) maskingKey p)"
  then have "readFrame (b0 # b1 # ext @ maskingKey @ maskLoop 0 (length p) maskingKey p @ rest)
      = (\<lparr>opcode = b0 AND 0x0F,
          payload = maskLoop 0 (length (maskLoop 0 (length p) maskingKey p)) maskingKey
                      (maskLoop 0 (length p) maskingKey p),
          err = (if b0 AND finBit \<noteq> 0 then None else Some ErrFragmented)\<rparr>, rest)"
    using readFrame_complete [of b1 ext maskingKey "maskLoop 0 (length p) maskingKey p" b0 rest]
    by simp
  then show "readFrame (b0 # b1 # ext @ maskingKey @ maskLoop 0 (length p) maskingKey p @ rest)
      = (\<lparr>opcode = b0 AND 0x0F, payload = p,
          err = (if b0 AND finBit \<noteq> 0 then None else Some ErrFragmented)\<rparr>, rest)"
    by (simp add: maskLoop_length maskLoop_twice)
qed

lemma maskLoop_hello:
  "maskLoop 0 5 [0x37, 0xfa, 0x21, 0x3d] [0x48, 0x65, 0x6c, 0x6c, 0x6f]
     = [0x7f, 0x9f, 0x4d, 0x51, 0x58]"
  by (simp add: maskLoop.simps)

theorem mask_self_inverse_witness:
  "maskLoop 0 5 [0x37, 0xfa, 0x21, 0x3d] [0x7f, 0x9f, 0x4d, 0x51, 0x58]
     = [0x48, 0x65, 0x6c, 0x6c, 0x6f :: byte]
   \<and> readFrame [0x81, 0x85, 0x37, 0xfa, 0x21, 0x3d, 0x7f, 0x9f, 0x4d, 0x51, 0x58]
     = (\<lparr>opcode = 0x1, payload = [0x48, 0x65, 0x6c, 0x6c, 0x6f], err = None\<rparr>, [])"
proof -
  have k: "length [0x37, 0xfa, 0x21, 0x3d :: byte] = 4"
    by simp
  have n: "length [0x48, 0x65, 0x6c, 0x6c, 0x6f :: byte] = 5"
    by simp
  note w = mask_self_inverse [OF k, of "[0x48, 0x65, 0x6c, 0x6c, 0x6f]",
      unfolded n maskLoop_hello]
  have c: "completeFrame 0x85 [] [0x37, 0xfa, 0x21, 0x3d] [0x7f, 0x9f, 0x4d, 0x51, 0x58]"
    by (simp add: completeFrame_def extLen_def payloadLenOf_def maskedBit_def)
  have m: "(0x85 :: byte) AND maskedBit \<noteq> 0" and o: "(0x81 :: byte) AND 0x0F \<noteq> 0x8"
    by (simp_all add: maskedBit_def)
  from w have first: "maskLoop 0 5 [0x37, 0xfa, 0x21, 0x3d] [0x7f, 0x9f, 0x4d, 0x51, 0x58]
     = [0x48, 0x65, 0x6c, 0x6c, 0x6f :: byte]"
    by (rule conjunct1)
  from w have "0x81 AND 0x0F \<noteq> (0x8 :: byte) \<and> (0x85 :: byte) AND maskedBit \<noteq> 0
      \<and> completeFrame 0x85 [] [0x37, 0xfa, 0x21, 0x3d] [0x7f, 0x9f, 0x4d, 0x51, 0x58]
    \<longrightarrow> readFrame (0x81 # 0x85 # [] @ [0x37, 0xfa, 0x21, 0x3d] @ [0x7f, 0x9f, 0x4d, 0x51, 0x58] @ [])
     = (\<lparr>opcode = 0x81 AND 0x0F, payload = [0x48, 0x65, 0x6c, 0x6c, 0x6f],
          err = (if (0x81 :: byte) AND finBit \<noteq> 0 then None else Some ErrFragmented)\<rparr>, [])"
    by blast
  with c m o have "readFrame (0x81 # 0x85 # [] @ [0x37, 0xfa, 0x21, 0x3d] @ [0x7f, 0x9f, 0x4d, 0x51, 0x58] @ [])
     = (\<lparr>opcode = 0x81 AND 0x0F, payload = [0x48, 0x65, 0x6c, 0x6c, 0x6f],
          err = (if (0x81 :: byte) AND finBit \<noteq> 0 then None else Some ErrFragmented)\<rparr>, [])"
    by blast
  then have "readFrame [0x81, 0x85, 0x37, 0xfa, 0x21, 0x3d, 0x7f, 0x9f, 0x4d, 0x51, 0x58]
     = (\<lparr>opcode = 0x1, payload = [0x48, 0x65, 0x6c, 0x6c, 0x6f], err = None\<rparr>, [])"
    by (simp add: finBit_def)
  with first show ?thesis
    by (rule conjI)
qed

section \<open>The loop echoes every frame that is not a close frame\<close>

text \<open>
  Claim C8. When \<^verbatim>\<open>readFrame\<close> returns a frame without error and its opcode is not close,
  ping (\<open>0x9\<close>) and pong (\<open>0xA\<close>) included, and the peer takes the bytes, the loop writes
  the header and the payload of one frame and goes on with the next frame: it continues
  on the connection whose unread bytes are the rest of the stream, and \<open>closed\<close> is not
  touched. The frame written has the fin bit set, the mask bit clear and the opcode that
  was read, and \<^verbatim>\<open>readFrame\<close> reads it back as the same opcode and the same payload.
\<close>

theorem echo_and_continue:
  assumes "readFrame (unread c) = (res, r')" and "err res = None" and "opcode res \<noteq> 0x8"
    and "canWrite c (length (frameHeader (opcode res) (payload res)) + length (payload res))"
  shows "serveLoop c =
      serveLoop (c\<lparr>unread := r',
                   written := written c @ frameHeader (opcode res) (payload res) @ payload res,
                   room := (case room c of None \<Rightarrow> None
                            | Some k \<Rightarrow> Some (k - length (frameHeader (opcode res) (payload res)
                                                         @ payload res)))\<rparr>)
    \<and> readFrame (frameHeader (opcode res) (payload res) @ payload res @ rest)
        = (\<lparr>opcode = opcode res, payload = payload res, err = None\<rparr>, rest)
    \<and> frameHeader (opcode res) (payload res) ! 0 AND finBit \<noteq> 0
    \<and> frameHeader (opcode res) (payload res) ! 0 AND 0x0F = opcode res
    \<and> frameHeader (opcode res) (payload res) ! 1 AND maskedBit = 0"
proof -
  from assms(1,2) have b: "opcode res < 0x10" "length (payload res) < 2 ^ 32"
    using readFrame_result_bounds by blast+
  have "serveLoop c =
      serveLoop (afterWrite (c\<lparr>unread := r'\<rparr>)
        (frameHeader (opcode res) (payload res) @ payload res))"
    using assms by (rule serveLoop_echo)
  then have step: "serveLoop c =
      serveLoop (c\<lparr>unread := r',
                   written := written c @ frameHeader (opcode res) (payload res) @ payload res,
                   room := (case room c of None \<Rightarrow> None
                            | Some k \<Rightarrow> Some (k - length (frameHeader (opcode res) (payload res)
                                                         @ payload res)))\<rparr>)"
    by (simp add: afterWrite_def)
  have rt: "readFrame (frameHeader (opcode res) (payload res) @ payload res @ rest)
        = (\<lparr>opcode = opcode res, payload = payload res, err = None\<rparr>, rest)"
    using b(1) assms(3) b(2) by (rule readFrame_frameHeader)
  have f: "frameHeader (opcode res) (payload res) ! 0 AND finBit \<noteq> 0"
    by (simp add: frameHeader_first header_byte0)
  have o: "frameHeader (opcode res) (payload res) ! 0 AND 0x0F = opcode res"
    using b(1) by (simp add: frameHeader_first header_byte0 low4)
  have m: "frameHeader (opcode res) (payload res) ! 1 AND maskedBit = 0"
    by (rule frameHeader_unmasked)
  from step rt f o m show ?thesis
    by (intro conjI)
qed

lemma serveLoop_eof: "serveLoop \<lparr>unread = [], written = ws, room = k, closed = b\<rparr>
    = \<lparr>unread = [], written = ws, room = k, closed = b\<rparr>"
  by (subst serveLoop.simps) (simp add: readFrame_def ReadFull_def)

theorem echo_and_continue_witness:
  "serveLoop \<lparr>unread = [0x89, 0x01, 0x41], written = [], room = None, closed = False\<rparr>
     = \<lparr>unread = [], written = [0x89, 0x01, 0x41], room = None, closed = False\<rparr>
   \<and> serveLoop \<lparr>unread = [0x8A, 0x00], written = [], room = Some 2, closed = False\<rparr>
     = \<lparr>unread = [], written = [0x8A, 0x00], room = Some 0, closed = False\<rparr>"
proof -
  have r1: "readFrame (unread \<lparr>unread = [0x89, 0x01, 0x41], written = [], room = None, closed = False\<rparr>)
      = (\<lparr>opcode = 0x9, payload = [0x41], err = None\<rparr>, [])"
    using readFrame_complete [of "0x01" "[]" "[]" "[0x41]" "0x89" "[]"]
    by (simp add: completeFrame_def extLen_def payloadLenOf_def maskedBit_def finBit_def)
  have h1: "frameHeader 0x9 [0x41] = [0x89, 0x01]"
    by (simp add: frameHeader_def)
  have a: "serveLoop \<lparr>unread = [0x89, 0x01, 0x41], written = [], room = None, closed = False\<rparr>
     = \<lparr>unread = [], written = [0x89, 0x01, 0x41], room = None, closed = False\<rparr>"
    using echo_and_continue [OF r1, THEN conjunct1]
    by (simp add: canWrite_def h1 serveLoop_eof)
  have r2: "readFrame (unread \<lparr>unread = [0x8A, 0x00], written = [], room = Some 2, closed = False\<rparr>)
      = (\<lparr>opcode = 0xA, payload = [], err = None\<rparr>, [])"
    using readFrame_complete [of "0x00" "[]" "[]" "[]" "0x8A" "[]"]
    by (simp add: completeFrame_def extLen_def payloadLenOf_def maskedBit_def finBit_def)
  have h2: "frameHeader 0xA [] = [0x8A, 0x00]"
    by (simp add: frameHeader_def)
  have b: "serveLoop \<lparr>unread = [0x8A, 0x00], written = [], room = Some 2, closed = False\<rparr>
     = \<lparr>unread = [], written = [0x8A, 0x00], room = Some 0, closed = False\<rparr>"
    using echo_and_continue [OF r2, THEN conjunct1]
    by (simp add: canWrite_def h2 serveLoop_eof)
  from a b show ?thesis
    by (rule conjI)
qed

section \<open>The reply to a close frame\<close>

text \<open>
  Claim C5. When \<^verbatim>\<open>readFrame\<close> returns the close opcode, the loop writes one frame and
  returns: the header \<open>0x88 0x05\<close> and the payload made of the two big-endian bytes of the
  status code \<open>0x8\<close> and the bytes of \<open>bye\<close>. Nothing more is read: the unread bytes are
  the rest of the stream after the two header bytes of the peer's frame. When the peer
  takes fewer than seven bytes the loop returns all the same, with what was taken
  written. The handler then closes the connection.
\<close>

theorem close_reply:
  assumes "readFrame (unread c) = (res, r')" and "err res = None" and "opcode res = 0x8"
  shows "unread (serveLoop c) = r'
    \<and> written (serveLoop c) =
        written c @
        (case room c of
           None \<Rightarrow> [0x88, 0x05] @ [0x00, 0x08] @ map of_char ''bye''
         | Some k \<Rightarrow> take k ([0x88, 0x05] @ [0x00, 0x08] @ map of_char ''bye''))
    \<and> (canWrite c 7 \<longrightarrow>
         serveLoop c =
           c\<lparr>unread := r',
              written := written c @ [0x88, 0x05] @ [0x00, 0x08] @ map of_char ''bye'',
              room := (case room c of None \<Rightarrow> None | Some k \<Rightarrow> Some (k - 7))\<rparr>)
    \<and> (Get h ''Connection'' = ''Upgrade'' \<and> Get h ''Upgrade'' = ''websocket''
         \<and> Get h ''Sec-WebSocket-Key'' \<noteq> [] \<longrightarrow>
         (\<exists>hs. websocketHandler h (Some c) =
                 Upgraded StatusSwitchingProtocols hs ((serveLoop c)\<lparr>closed := True\<rparr>)))"
proof -
  let ?p = "[0x00, 0x08, 0x62, 0x79, 0x65] :: byte list"
  have bye: "map of_char ''bye'' = ([0x62, 0x79, 0x65] :: byte list)"
    by simp
  have s: "serveLoop c = snd (writeFrame (c\<lparr>unread := r'\<rparr>) 0x8 ?p)"
    using assms by (rule serveLoop_close)
  have u: "unread (serveLoop c) = r'"
    by (simp add: s writeFrame_unread)
  have w: "written (serveLoop c) =
        written c @
        (case room c of
           None \<Rightarrow> [0x88, 0x05] @ [0x00, 0x08] @ map of_char ''bye''
         | Some k \<Rightarrow> take k ([0x88, 0x05] @ [0x00, 0x08] @ map of_char ''bye''))"
    by (cases "room c") (simp_all add: s writeFrame_written closeFrame_header bye)
  have k: "canWrite c 7 \<longrightarrow>
         serveLoop c =
           c\<lparr>unread := r',
              written := written c @ [0x88, 0x05] @ [0x00, 0x08] @ map of_char ''bye'',
              room := (case room c of None \<Rightarrow> None | Some k \<Rightarrow> Some (k - 7))\<rparr>"
  proof
    assume "canWrite c 7"
    then have "canWrite (c\<lparr>unread := r'\<rparr>) (length (frameHeader 0x8 ?p) + length ?p)"
      by (cases "room c") (simp_all add: canWrite_def closeFrame_header)
    from writeFrame_ok [OF this] show "serveLoop c =
           c\<lparr>unread := r',
              written := written c @ [0x88, 0x05] @ [0x00, 0x08] @ map of_char ''bye'',
              room := (case room c of None \<Rightarrow> None | Some k \<Rightarrow> Some (k - 7))\<rparr>"
      by (cases "room c") (simp_all add: s afterWrite_def closeFrame_header bye)
  qed
  have hd: "Get h ''Connection'' = ''Upgrade'' \<and> Get h ''Upgrade'' = ''websocket''
         \<and> Get h ''Sec-WebSocket-Key'' \<noteq> [] \<longrightarrow>
         (\<exists>hs. websocketHandler h (Some c) =
                 Upgraded StatusSwitchingProtocols hs ((serveLoop c)\<lparr>closed := True\<rparr>))"
  proof
    assume v: "Get h ''Connection'' = ''Upgrade'' \<and> Get h ''Upgrade'' = ''websocket''
         \<and> Get h ''Sec-WebSocket-Key'' \<noteq> []"
    show "\<exists>hs. websocketHandler h (Some c) =
                 Upgraded StatusSwitchingProtocols hs ((serveLoop c)\<lparr>closed := True\<rparr>)"
      unfolding websocketHandler_def Let_def Close_def using v by auto
  qed
  from u w k hd show ?thesis
    by (intro conjI)
qed

theorem close_reply_witness:
  "serveLoop \<lparr>unread = [0x88, 0x02, 0x03, 0xE8, 0x81, 0x00], written = [], room = None,
              closed = False\<rparr>
     = \<lparr>unread = [0x03, 0xE8, 0x81, 0x00],
        written = [0x88, 0x05, 0x00, 0x08, 0x62, 0x79, 0x65], room = None, closed = False\<rparr>"
proof -
  have r: "readFrame (unread \<lparr>unread = [0x88, 0x02, 0x03, 0xE8, 0x81, 0x00], written = [],
              room = None, closed = False\<rparr>)
      = (\<lparr>opcode = 0x8, payload = [], err = None\<rparr>, [0x03, 0xE8, 0x81, 0x00])"
    by (simp add: readFrame_def ReadFull_header)
  have e: "err \<lparr>opcode = 0x8, payload = [], err = None\<rparr> = None"
    and o: "opcode \<lparr>opcode = 0x8, payload = [], err = None\<rparr> = 0x8"
    by simp_all
  note t = close_reply [OF r e o, THEN conjunct2, THEN conjunct2, THEN conjunct1]
  show ?thesis
    using t
    by (simp add: canWrite_def)
qed

section \<open>Validation of the handshake headers\<close>

text \<open>
  Claim C6. For every set of request headers the handler answers with the status 400 and
  the message of \<^verbatim>\<open>NotAnUpgradeRequest\<close> when the value of \<^verbatim>\<open>Connection\<close> is not the
  string \<open>Upgrade\<close> or the value of \<^verbatim>\<open>Upgrade\<close> is not the string \<open>websocket\<close>, compared
  byte for byte; when both are right and \<^verbatim>\<open>Sec-WebSocket-Key\<close> is absent or empty, it
  answers with the status 400 and the message of \<^verbatim>\<open>MissingHandshakeKey\<close>. In these cases
  the connection is not asked for. The status 101 is sent exactly when the three headers
  pass, and the loop runs on the connection exactly when, in addition, the connection was
  handed over.
\<close>

theorem handshake_validation:
  "(Get h ''Connection'' \<noteq> ''Upgrade'' \<or> Get h ''Upgrade'' \<noteq> ''websocket''
      \<longrightarrow> websocketHandler h hijack = HttpError 400 ''Not a websocket upgrade request'')
   \<and> (Get h ''Connection'' = ''Upgrade'' \<and> Get h ''Upgrade'' = ''websocket''
        \<and> (h ''Sec-WebSocket-Key'' = None \<or> Get h ''Sec-WebSocket-Key'' = [])
      \<longrightarrow> websocketHandler h hijack = HttpError 400 ''Bad WebSocket handshake'')
   \<and> ((\<exists>hs c. websocketHandler h hijack = Upgraded 101 hs c) \<longleftrightarrow>
        Get h ''Connection'' = ''Upgrade'' \<and> Get h ''Upgrade'' = ''websocket''
        \<and> Get h ''Sec-WebSocket-Key'' \<noteq> [] \<and> hijack \<noteq> None)
   \<and> ((\<exists>code hs. websocketHandler h hijack = HijackFailed code hs
          \<or> (\<exists>c. websocketHandler h hijack = Upgraded code hs c)) \<longleftrightarrow>
        Get h ''Connection'' = ''Upgrade'' \<and> Get h ''Upgrade'' = ''websocket''
        \<and> Get h ''Sec-WebSocket-Key'' \<noteq> [])"
proof (intro conjI)
  show "Get h ''Connection'' \<noteq> ''Upgrade'' \<or> Get h ''Upgrade'' \<noteq> ''websocket''
      \<longrightarrow> websocketHandler h hijack = HttpError 400 ''Not a websocket upgrade request''"
    by (simp add: websocketHandler_def StatusBadRequest_def)
  have absent: "h ''Sec-WebSocket-Key'' = None \<Longrightarrow> Get h ''Sec-WebSocket-Key'' = []"
    by (simp add: Get_def)
  show "Get h ''Connection'' = ''Upgrade'' \<and> Get h ''Upgrade'' = ''websocket''
        \<and> (h ''Sec-WebSocket-Key'' = None \<or> Get h ''Sec-WebSocket-Key'' = [])
      \<longrightarrow> websocketHandler h hijack = HttpError 400 ''Bad WebSocket handshake''"
    using absent by (auto simp: websocketHandler_def StatusBadRequest_def)
  show "(\<exists>hs c. websocketHandler h hijack = Upgraded 101 hs c) \<longleftrightarrow>
        Get h ''Connection'' = ''Upgrade'' \<and> Get h ''Upgrade'' = ''websocket''
        \<and> Get h ''Sec-WebSocket-Key'' \<noteq> [] \<and> hijack \<noteq> None"
    by (cases hijack)
      (auto simp: websocketHandler_def Let_def StatusSwitchingProtocols_def)
  show "(\<exists>code hs. websocketHandler h hijack = HijackFailed code hs
          \<or> (\<exists>c. websocketHandler h hijack = Upgraded code hs c)) \<longleftrightarrow>
        Get h ''Connection'' = ''Upgrade'' \<and> Get h ''Upgrade'' = ''websocket''
        \<and> Get h ''Sec-WebSocket-Key'' \<noteq> []"
    by (cases hijack) (auto simp: websocketHandler_def Let_def)
qed


theorem handshake_validation_witness:
  "websocketHandler
     [''Connection'' \<mapsto> [''upgrade''], ''Upgrade'' \<mapsto> [''websocket''],
      ''Sec-WebSocket-Key'' \<mapsto> [''dGhlIHNhbXBsZSBub25jZQ=='']] None
     = HttpError 400 ''Not a websocket upgrade request''
   \<and> websocketHandler
     [''Connection'' \<mapsto> [''Upgrade''], ''Upgrade'' \<mapsto> [''WebSocket''],
      ''Sec-WebSocket-Key'' \<mapsto> [''dGhlIHNhbXBsZSBub25jZQ=='']] None
     = HttpError 400 ''Not a websocket upgrade request''
   \<and> websocketHandler
     [''Connection'' \<mapsto> [''Upgrade''], ''Upgrade'' \<mapsto> [''websocket'']] None
     = HttpError 400 ''Bad WebSocket handshake''
   \<and> websocketHandler
     [''Connection'' \<mapsto> [''Upgrade''], ''Upgrade'' \<mapsto> [''websocket''],
      ''Sec-WebSocket-Key'' \<mapsto> [[]]] None
     = HttpError 400 ''Bad WebSocket handshake''"
proof -
  let ?h1 = "[''Connection'' \<mapsto> [''upgrade''], ''Upgrade'' \<mapsto> [''websocket''],
      ''Sec-WebSocket-Key'' \<mapsto> [''dGhlIHNhbXBsZSBub25jZQ=='']]"
  let ?h2 = "[''Connection'' \<mapsto> [''Upgrade''], ''Upgrade'' \<mapsto> [''WebSocket''],
      ''Sec-WebSocket-Key'' \<mapsto> [''dGhlIHNhbXBsZSBub25jZQ=='']]"
  let ?h3 = "[''Connection'' \<mapsto> [''Upgrade''], ''Upgrade'' \<mapsto> [''websocket'']]"
  let ?h4 = "[''Connection'' \<mapsto> [''Upgrade''], ''Upgrade'' \<mapsto> [''websocket''],
      ''Sec-WebSocket-Key'' \<mapsto> [[]]]"
  have a: "websocketHandler ?h1 None = HttpError 400 ''Not a websocket upgrade request''"
    using handshake_validation [of ?h1 None, THEN conjunct1] by (simp add: Get_def)
  have b: "websocketHandler ?h2 None = HttpError 400 ''Not a websocket upgrade request''"
    using handshake_validation [of ?h2 None, THEN conjunct1] by (simp add: Get_def)
  have c: "websocketHandler ?h3 None = HttpError 400 ''Bad WebSocket handshake''"
    using handshake_validation [of ?h3 None, THEN conjunct2, THEN conjunct1]
    by (simp add: Get_def)
  have d: "websocketHandler ?h4 None = HttpError 400 ''Bad WebSocket handshake''"
    using handshake_validation [of ?h4 None, THEN conjunct2, THEN conjunct1]
    by (simp add: Get_def)
  from a b c d show ?thesis
    by (intro conjI)
qed

section \<open>The accept key\<close>

text \<open>
  The model of SHA-1 and base64 on known values: the digest of \<open>abc\<close> from FIPS 180, the
  base64 examples of RFC 4648, and the handshake example of RFC 6455.
\<close>

lemmas sha_eval = add32_def not32_def RotateLeft32_def zeros.simps PutUint64_def PutUint32_def
  sha1_pad_def schedule.simps sha1_f_def sha1_k_def blocks.simps sha1_def encodeStd_def
  bytes_of_def magicGUID_def

lemma sha1_abc:
  "sha1 (bytes_of ''abc'') =
     [0xa9, 0x99, 0x3e, 0x36, 0x47, 0x06, 0x81, 0x6a, 0xba, 0x3e,
      0x25, 0x71, 0x78, 0x50, 0xc2, 0x6c, 0x9c, 0xd0, 0xd8, 0x9d]"
  by (simp add: sha_eval)

lemma base64_padding:
  "EncodeToString (bytes_of []) = []"
  "EncodeToString (bytes_of ''f'') = ''Zg==''"
  "EncodeToString (bytes_of ''fo'') = ''Zm8=''"
  "EncodeToString (bytes_of ''foo'') = ''Zm9v''"
  "EncodeToString (bytes_of ''foobar'') = ''Zm9vYmFy''"
  by (simp_all add: bytes_of_def encodeStd_def)

lemma rfc6455_accept:
  "EncodeToString (sha1 (bytes_of (''dGhlIHNhbXBsZSBub25jZQ=='' @ magicGUID)))
     = ''s3pPLMBiTxaQ9kYGzzhZRbK+xOo=''"
  by (simp add: sha_eval)

text \<open>
  Claim C1. For every request whose headers pass the validation, whether or not the
  connection is then handed over, the header \<^verbatim>\<open>Sec-WebSocket-Accept\<close> of the response is
  the padded standard base64 of the SHA-1 digest of the bytes of the key followed by
  \<open>258EAFA5-E914-47DA-95CA-C5AB0DC85B11\<close>; for the key \<open>dGhlIHNhbXBsZSBub25jZQ==\<close> it is
  \<open>s3pPLMBiTxaQ9kYGzzhZRbK+xOo=\<close>.
\<close>

theorem accept_key:
  assumes "Get h ''Connection'' = ''Upgrade''" and "Get h ''Upgrade'' = ''websocket''"
    and "Get h ''Sec-WebSocket-Key'' \<noteq> []"
  shows "map_of (responseHeaders (websocketHandler h hijack)) ''Sec-WebSocket-Accept''
      = Some (EncodeToString (sha1 (bytes_of
          (Get h ''Sec-WebSocket-Key'' @ ''258EAFA5-E914-47DA-95CA-C5AB0DC85B11''))))
    \<and> (Get h ''Sec-WebSocket-Key'' = ''dGhlIHNhbXBsZSBub25jZQ=='' \<longrightarrow>
        map_of (responseHeaders (websocketHandler h hijack)) ''Sec-WebSocket-Accept''
          = Some ''s3pPLMBiTxaQ9kYGzzhZRbK+xOo='')"
proof -
  have k: "map_of (responseHeaders (websocketHandler h hijack)) ''Sec-WebSocket-Accept''
      = Some (EncodeToString (sha1 (bytes_of (Get h ''Sec-WebSocket-Key'' @ magicGUID))))"
    using assms by (cases hijack) (simp_all add: websocketHandler_def Let_def)
  show ?thesis
  proof (intro conjI impI)
    show "map_of (responseHeaders (websocketHandler h hijack)) ''Sec-WebSocket-Accept''
      = Some (EncodeToString (sha1 (bytes_of
          (Get h ''Sec-WebSocket-Key'' @ ''258EAFA5-E914-47DA-95CA-C5AB0DC85B11''))))"
      using k by (simp only: magicGUID_def)
  next
    assume "Get h ''Sec-WebSocket-Key'' = ''dGhlIHNhbXBsZSBub25jZQ==''"
    then show "map_of (responseHeaders (websocketHandler h hijack)) ''Sec-WebSocket-Accept''
          = Some ''s3pPLMBiTxaQ9kYGzzhZRbK+xOo=''"
      using k by (simp only: rfc6455_accept)
  qed
qed

theorem accept_key_witness:
  "map_of (responseHeaders (websocketHandler
     [''Connection'' \<mapsto> [''Upgrade''], ''Upgrade'' \<mapsto> [''websocket''],
      ''Sec-WebSocket-Key'' \<mapsto> [''dGhlIHNhbXBsZSBub25jZQ=='']] None))
     ''Sec-WebSocket-Accept'' = Some ''s3pPLMBiTxaQ9kYGzzhZRbK+xOo=''"
proof -
  let ?h = "[''Connection'' \<mapsto> [''Upgrade''], ''Upgrade'' \<mapsto> [''websocket''],
      ''Sec-WebSocket-Key'' \<mapsto> [''dGhlIHNhbXBsZSBub25jZQ=='']]"
  have c: "Get ?h ''Connection'' = ''Upgrade''" and u: "Get ?h ''Upgrade'' = ''websocket''"
    and k: "Get ?h ''Sec-WebSocket-Key'' = ''dGhlIHNhbXBsZSBub25jZQ==''"
    by (simp_all add: Get_def)
  from k have n: "Get ?h ''Sec-WebSocket-Key'' \<noteq> []"
    by simp
  from accept_key [OF c u n, of None, THEN conjunct2] k show ?thesis
    by blast
qed

end
